theory Spec2Isabelle
  imports
    Complex_Main
    "HOL-Library.Sublist"
    "HOL-Library.Multiset"
    "HOL-Library.Char_ord"
    "HOL-Library.List_Lexorder"
begin

chapter \<open>The Harvest gateway and its analytics: model and properties\<close>

section \<open>Numbers\<close>

text \<open>
  The program computes with JavaScript numbers.  Hours, rates and amounts are modelled as
  exact rationals, counts and millisecond timestamps as integers.  \<open>Math.round\<close> rounds
  to the nearest integer with ties towards plus infinity, and the \<open>round\<close> helper that
  every calculator carries is \<open>Math.round(num * 100) / 100\<close>.
\<close>

definition math_round :: "rat \<Rightarrow> int" where
  "math_round x = \<lfloor>x + 1 / 2\<rfloor>"

definition round_num :: "rat \<Rightarrow> rat" where
  "round_num num = of_int (math_round (num * 100)) / 100"

text \<open>
  \<open>Math.min(...xs)\<close> of an empty argument list is \<open>Infinity\<close>; the only place where the
  program can meet that value is the permit computation below.
\<close>

datatype js_number = Num int | PosInfinity

fun math_min :: "int list \<Rightarrow> js_number" where
  "math_min [] = PosInfinity"
| "math_min (x # xs) = Num (fold min xs x)"

section \<open>RateLimiter: class HarvestRateLimiter (unnamed/part_001)\<close>

text \<open>
  Every method of the limiter reads the clock.  A method body runs synchronously, so the
  readings of \<open>Date.now()\<close> inside one call are taken to be the same instant, which is the
  parameter \<open>now\<close> of the model.
\<close>

record RateLimitConfig =
  maxRequests :: int
  windowMs :: int
  warningThreshold :: rat


record HarvestRateLimiter =
  config :: RateLimitConfig
  requestTimestamps :: "int list"
  retryAfterMs :: int

record RateLimitStatus =
  remaining :: int
  total :: int
  resetMs :: int
  isThrottled :: bool

definition newRateLimiter :: "RateLimitConfig \<Rightarrow> HarvestRateLimiter" where
  "newRateLimiter cfg = \<lparr>config = cfg, requestTimestamps = [], retryAfterMs = 0\<rparr>"

definition cleanOldTimestamps :: "int \<Rightarrow> HarvestRateLimiter \<Rightarrow> HarvestRateLimiter" where
  "cleanOldTimestamps now rl =
     (let cutoff = now - windowMs (config rl)
      in rl\<lparr>requestTimestamps := filter (\<lambda>ts. ts > cutoff) (requestTimestamps rl)\<rparr>)"

definition getStatus :: "int \<Rightarrow> HarvestRateLimiter \<Rightarrow> RateLimitStatus \<times> HarvestRateLimiter" where
  "getStatus now rl0 =
     (let rl = cleanOldTimestamps now rl0;
          cfg = config rl;
          count = int (length (requestTimestamps rl));
          reset = (case math_min (requestTimestamps rl) of
                     PosInfinity \<Rightarrow> 0
                   | Num oldestTimestamp \<Rightarrow> max 0 ((oldestTimestamp + windowMs cfg) - now))
      in (\<lparr>remaining = max 0 (maxRequests cfg - count),
           total = maxRequests cfg,
           resetMs = reset,
           isThrottled = (retryAfterMs rl > now
              \<or> of_int count \<ge> of_int (maxRequests cfg) * warningThreshold cfg)\<rparr>, rl))"

definition acquirePermit :: "int \<Rightarrow> HarvestRateLimiter \<Rightarrow> js_number \<times> HarvestRateLimiter" where
  "acquirePermit now rl0 =
     (let rl = cleanOldTimestamps now rl0;
          cfg = config rl;
          count = int (length (requestTimestamps rl))
      in if retryAfterMs rl > now then (Num (retryAfterMs rl - now), rl)
         else if count \<ge> maxRequests cfg then
           (case math_min (requestTimestamps rl) of
              PosInfinity \<Rightarrow> (PosInfinity, rl)
            | Num oldestTimestamp \<Rightarrow>
                (Num (max 0 ((oldestTimestamp + windowMs cfg) - now)), rl))
         else if of_int count \<ge> of_int (maxRequests cfg) * warningThreshold cfg then
           (let remaining = maxRequests cfg - count;
                delayMs = \<lfloor>(of_int (windowMs cfg) / of_int remaining / 2 :: rat)\<rfloor>
            in (Num (min delayMs 500), rl))
         else (Num 0, rl))"

definition recordRequest :: "int \<Rightarrow> HarvestRateLimiter \<Rightarrow> HarvestRateLimiter" where
  "recordRequest now rl = rl\<lparr>requestTimestamps := requestTimestamps rl @ [now]\<rparr>"


text \<open>A run of \<open>recordRequest\<close> calls, one at each of the given instants, in order.\<close>

definition recordRequests :: "int list \<Rightarrow> HarvestRateLimiter \<Rightarrow> HarvestRateLimiter" where
  "recordRequests stamps rl = foldl (\<lambda>r t. recordRequest t r) rl stamps"

section \<open>ApiGateway: errors and \<open>autoPaginate\<close> (harvest/client.ts)\<close>

text \<open>
  An exception is a value.  \<open>HarvestApiError\<close> carries its message, the HTTP status and
  the error body; \<open>OtherError\<close> stands for any other thrown value (a failed \<open>fetch\<close>,
  a body that is not JSON); the last constructor is the
  \<open>new Error('Request failed after retries')\<close> of \<open>request\<close>.
\<close>

datatype error =
    HarvestApiError string int "string option"
  | OtherError string
  | RequestFailedAfterRetries

fun isRateLimited :: "error \<Rightarrow> bool" where
  "isRateLimited (HarvestApiError message statusCode errorBody) = (statusCode = 429)"
| "isRateLimited _ = False"

fun isUnauthorized :: "error \<Rightarrow> bool" where
  "isUnauthorized (HarvestApiError message statusCode errorBody) = (statusCode = 401)"
| "isUnauthorized _ = False"

text \<open>
  A paginated response is an object: \<open>properties\<close> lists its own properties in key order, each
  either array-valued or not, and the three pagination values the loop reads are fields
  of the record.  The endpoint closure is a function of the page number and the
  page size that returns the response or throws.
\<close>

datatype 'a field = ArrayField "'a list" | OtherField

record 'a PaginatedResponse =
  properties :: "(string \<times> 'a field) list"
  total_pages :: nat
  total_entries :: nat
  next_page :: "nat option"

record AutoPaginateOptions =
  maxPages :: "nat option"
  perPage :: "nat option"

record 'a AutoPaginateResult =
  items :: "'a list"
  result_total_entries :: nat
  pages_fetched :: nat

fun isArray :: "'a field \<Rightarrow> bool" where
  "isArray (ArrayField xs) = True"
| "isArray OtherField = False"

definition itemsKey :: "'a PaginatedResponse \<Rightarrow> string option" where
  "itemsKey response =
     map_option fst (find (\<lambda>(key, v). isArray v \<and> key \<noteq> ''_meta'') (properties response))"

definition responseItems :: "'a PaginatedResponse \<Rightarrow> 'a list" where
  "responseItems response =
     (case itemsKey response of
        None \<Rightarrow> []
      | Some key \<Rightarrow>
          (case map_of (properties response) key of
             Some (ArrayField xs) \<Rightarrow> xs
           | _ \<Rightarrow> []))"

text \<open>
  The \<open>while\<close> loop of \<open>autoPaginate\<close>, with the loop variables as arguments.  A throwing
  endpoint ends the call with that error; nothing in \<open>autoPaginate\<close> catches it.  The
  \<open>onPage\<close> callback and the \<open>_meta\<close> block read no loop variable but the page numbers
  and are left out.
\<close>

function paginateLoop ::
  "(nat \<Rightarrow> nat \<Rightarrow> error + 'a PaginatedResponse) \<Rightarrow> nat \<Rightarrow> nat
     \<Rightarrow> nat \<Rightarrow> nat \<Rightarrow> nat \<Rightarrow> 'a list \<Rightarrow> error + 'a AutoPaginateResult" where
  "paginateLoop endpoint maxP perP page totalPages totalEntries allItems =
     (if page \<le> maxP \<and> page \<le> totalPages then
        (case endpoint page perP of
           Inl e \<Rightarrow> Inl e
         | Inr response \<Rightarrow>
             (if next_page response = None then
                Inr \<lparr>items = allItems @ responseItems response,
                     result_total_entries = total_entries response,
                     pages_fetched = page\<rparr>
              else paginateLoop endpoint maxP perP (page + 1) (total_pages response)
                     (total_entries response) (allItems @ responseItems response)))
      else Inr \<lparr>items = allItems, result_total_entries = totalEntries, pages_fetched = page\<rparr>)"
  by pat_completeness auto
termination
  by (relation "measure (\<lambda>(endpoint, maxP, perP, page, totalPages, totalEntries, allItems).
        maxP + 1 - page)") auto

definition autoPaginate ::
  "(nat \<Rightarrow> nat \<Rightarrow> error + 'a PaginatedResponse) \<Rightarrow> AutoPaginateOptions
     \<Rightarrow> error + 'a AutoPaginateResult" where
  "autoPaginate endpoint options =
     (let maxP = (case maxPages options of None \<Rightarrow> 10 | Some m \<Rightarrow> m);
          perP = (case perPage options of None \<Rightarrow> 100 | Some p \<Rightarrow> p)
      in paginateLoop endpoint maxP perP 1 1 0 [])"

text \<open>
  How a run goes on after a page: the fetch of page \<open>p\<close> returned a response, that
  response names a next page, and \<open>p + 1\<close> is within the total it reports.
\<close>

definition continues :: "(nat \<Rightarrow> nat \<Rightarrow> error + 'a PaginatedResponse) \<Rightarrow> nat \<Rightarrow> nat \<Rightarrow> bool" where
  "continues endpoint perP p =
     (case endpoint p perP of
        Inl e \<Rightarrow> False
      | Inr response \<Rightarrow> next_page response \<noteq> None \<and> p + 1 \<le> total_pages response)"

definition pageItems :: "(nat \<Rightarrow> nat \<Rightarrow> error + 'a PaginatedResponse) \<Rightarrow> nat \<Rightarrow> nat \<Rightarrow> 'a list" where
  "pageItems endpoint perP p =
     (case endpoint p perP of Inl e \<Rightarrow> [] | Inr response \<Rightarrow> responseItems response)"

definition fetched :: "(nat \<Rightarrow> nat \<Rightarrow> error + 'a PaginatedResponse) \<Rightarrow> nat \<Rightarrow> nat \<Rightarrow> bool" where
  "fetched endpoint perP p = (case endpoint p perP of Inl e \<Rightarrow> False | Inr response \<Rightarrow> True)"

definition maxPagesOf :: "AutoPaginateOptions \<Rightarrow> nat" where
  "maxPagesOf options = (case maxPages options of None \<Rightarrow> 10 | Some m \<Rightarrow> m)"

definition perPageOf :: "AutoPaginateOptions \<Rightarrow> nat" where
  "perPageOf options = (case perPage options of None \<Rightarrow> 100 | Some p \<Rightarrow> p)"

definition defaultOptions :: AutoPaginateOptions where
  "defaultOptions = \<lparr>maxPages = None, perPage = None\<rparr>"

section \<open>Strings\<close>





section \<open>EntityResolver (entities/types.ts)\<close>












subsection \<open>The directory snapshot and \<open>resolve\<close>\<close>




















section \<open>AnalyticsEngine: records and grouping keys (compute/aggregation.ts, compute/utilization.ts)\<close>

text \<open>
  Of a time entry the calculators read the fields below.  The references to user,
  client, project and task are objects \<open>{id, name}\<close>.  A field that two records of the
  source share is prefixed in all but one of them.
\<close>

record Ref =
  ref_id :: int
  ref_name :: string

record TimeEntry =
  entry_id :: int
  spent_date :: string
  hours :: rat
  rounded_hours :: rat
  is_billed :: bool
  billable :: bool
  billable_rate :: "rat option"
  cost_rate :: "rat option"
  user :: Ref
  client :: Ref
  project :: Ref
  task :: Ref

datatype InvoiceState = Draft | Open | Paid | Closed


datatype GroupBy = ByClient | ByProject | ByUser | ByTask | ByDate | ByMonth | ByWeek


datatype GroupId = NumberId int | StringId string

record Grouping =
  grouping_id :: GroupId
  grouping_name :: string
  grouping_type :: GroupBy

text \<open>Template literals print an integer in decimal.\<close>

definition digitChar :: "nat \<Rightarrow> char" where
  "digitChar d = ''0123456789'' ! d"

function showNat :: "nat \<Rightarrow> string" where
  "showNat n = (if n < 10 then [digitChar n] else showNat (n div 10) @ [digitChar (n mod 10)])"
  by pat_completeness auto
termination
  by (relation "measure id") auto

definition showInt :: "int \<Rightarrow> string" where
  "showInt i = (if i < 0 then ''-'' @ showNat (nat (- i)) else showNat (nat i))"

text \<open>
  \<open>getGroupKey\<close> is the same method in the three calculators.  The Monday of an entry's
  week comes from the runtime's \<open>Date\<close> arithmetic in the local time zone; it is the
  parameter \<open>getWeekStart\<close>, a function of the date string.
\<close>

fun getGroupKey :: "(string \<Rightarrow> string) \<Rightarrow> TimeEntry \<Rightarrow> GroupBy \<Rightarrow> string \<times> string \<times> GroupId" where
  "getGroupKey getWeekStart entry ByClient =
     (''client:'' @ showInt (ref_id (client entry)), ref_name (client entry),
      NumberId (ref_id (client entry)))"
| "getGroupKey getWeekStart entry ByProject =
     (''project:'' @ showInt (ref_id (project entry)), ref_name (project entry),
      NumberId (ref_id (project entry)))"
| "getGroupKey getWeekStart entry ByUser =
     (''user:'' @ showInt (ref_id (user entry)), ref_name (user entry),
      NumberId (ref_id (user entry)))"
| "getGroupKey getWeekStart entry ByTask =
     (''task:'' @ showInt (ref_id (task entry)), ref_name (task entry),
      NumberId (ref_id (task entry)))"
| "getGroupKey getWeekStart entry ByDate =
     (''date:'' @ spent_date entry, spent_date entry, StringId (spent_date entry))"
| "getGroupKey getWeekStart entry ByWeek =
     (let weekStart = getWeekStart (spent_date entry)
      in (''week:'' @ weekStart, ''Week of '' @ weekStart, StringId weekStart))"
| "getGroupKey getWeekStart entry ByMonth =
     (let month = take 7 (spent_date entry)
      in (''month:'' @ month, month, StringId month))"

text \<open>
  The \<open>Map\<close> that \<open>groupResults\<close> fills, as the list of its entries in insertion order.
  One loop step: create the group of the entry's key when the map has none, then push
  the entry onto that group's list.
\<close>

record GroupData =
  group_entries :: "TimeEntry list"
  group_name :: string
  group_id :: GroupId

definition groupStep ::
  "(string \<Rightarrow> string) \<Rightarrow> GroupBy \<Rightarrow> (string \<times> GroupData) list \<Rightarrow> TimeEntry
     \<Rightarrow> (string \<times> GroupData) list" where
  "groupStep getWeekStart primaryGroup groups entry =
     (let (key, name, gid) = getGroupKey getWeekStart entry primaryGroup;
          groups' = (if map_of groups key = None
                     then groups @ [(key, \<lparr>group_entries = [], group_name = name, group_id = gid\<rparr>)]
                     else groups)
      in map (\<lambda>(k, g). if k = key then (k, g\<lparr>group_entries := group_entries g @ [entry]\<rparr>)
                         else (k, g)) groups')"

definition groupEntries ::
  "(string \<Rightarrow> string) \<Rightarrow> GroupBy \<Rightarrow> TimeEntry list \<Rightarrow> (string \<times> GroupData) list" where
  "groupEntries getWeekStart primaryGroup entries =
     foldl (groupStep getWeekStart primaryGroup) [] entries"

definition groupingOf :: "GroupBy \<Rightarrow> GroupData \<Rightarrow> Grouping" where
  "groupingOf primaryGroup groupData =
     \<lparr>grouping_id = group_id groupData, grouping_name = group_name groupData,
      grouping_type = primaryGroup\<rparr>"

section \<open>TimeAggregationCalculator (compute/aggregation.ts)\<close>








section \<open>ProfitabilityCalculator (compute/utilization.ts)\<close>




















section \<open>UtilizationCalculator (compute/utilization.ts)\<close>

text \<open>
  A date of the range is the number of its day, counted from 1 January 1970, which was a
  Thursday; \<open>getDay\<close> is the day of the week with Sunday as 0.  The day-by-day loop of
  \<open>calculateWorkingDays\<close> runs over these numbers (the calendar of the runtime in UTC).
\<close>

definition getDay :: "int \<Rightarrow> int" where
  "getDay d = (d + 4) mod 7"

function workingDaysLoop :: "int \<Rightarrow> int \<Rightarrow> bool \<Rightarrow> nat \<Rightarrow> nat" where
  "workingDaysLoop current toDay excludeWeekends counted =
     (if current \<le> toDay then
        workingDaysLoop (current + 1) toDay excludeWeekends
          (if excludeWeekends
           then (if getDay current \<noteq> 0 \<and> getDay current \<noteq> 6 then counted + 1 else counted)
           else counted + 1)
      else counted)"
  by pat_completeness auto
termination
  by (relation "measure (\<lambda>(current, toDay, excludeWeekends, counted). nat (toDay + 1 - current))")
    auto

definition calculateWorkingDays :: "int \<Rightarrow> int \<Rightarrow> bool \<Rightarrow> nat" where
  "calculateWorkingDays fromDay toDay excludeWeekends =
     workingDaysLoop fromDay toDay excludeWeekends 0"

record UtilizationMetrics =
  total_hours :: rat
  u_billable_hours :: rat
  u_non_billable_hours :: rat
  capacity_hours :: rat
  utilization_percent :: rat
  billable_utilization_percent :: rat
  billable_ratio_percent :: rat
  working_days :: nat

record UtilizationSums =
  totalHours :: rat
  billableHours :: rat
  nonBillableHours :: rat

definition utilizationStep :: "UtilizationSums \<Rightarrow> TimeEntry \<Rightarrow> UtilizationSums" where
  "utilizationStep s entry =
     (let s1 = s\<lparr>totalHours := totalHours s + hours entry\<rparr>
      in if billable entry
         then s1\<lparr>billableHours := billableHours s1 + hours entry\<rparr>
         else s1\<lparr>nonBillableHours := nonBillableHours s1 + hours entry\<rparr>)"

definition calculateMetrics_utilization ::
  "TimeEntry list \<Rightarrow> rat \<Rightarrow> nat \<Rightarrow> UtilizationMetrics" where
  "calculateMetrics_utilization entries capacityHours workingDays =
     (let s = foldl utilizationStep
                \<lparr>totalHours = 0, billableHours = 0, nonBillableHours = 0\<rparr> entries;
          utilizationPercent =
            (if capacityHours > 0 then (totalHours s / capacityHours) * 100 else 0);
          billableUtilizationPercent =
            (if capacityHours > 0 then (billableHours s / capacityHours) * 100 else 0);
          billableRatioPercent =
            (if totalHours s > 0 then (billableHours s / totalHours s) * 100 else 0)
      in \<lparr>total_hours = round_num (totalHours s),
          u_billable_hours = round_num (billableHours s),
          u_non_billable_hours = round_num (nonBillableHours s),
          capacity_hours = round_num capacityHours,
          utilization_percent = round_num utilizationPercent,
          billable_utilization_percent = round_num billableUtilizationPercent,
          billable_ratio_percent = round_num billableRatioPercent,
          working_days = workingDays\<rparr>)"

text \<open>\<open>new Set(entries.map(e => e.user.id)).size\<close>\<close>

definition uniqueUsers :: "TimeEntry list \<Rightarrow> nat" where
  "uniqueUsers entries = length (remdups (map (\<lambda>e. ref_id (user e)) entries))"

datatype UtilizationResult =
  UtilizationResult (u_grouping: Grouping) (u_metrics: UtilizationMetrics)
    (u_children: "UtilizationResult list option")

fun groupResults_utilization ::
  "(string \<Rightarrow> string) \<Rightarrow> TimeEntry list \<Rightarrow> GroupBy list \<Rightarrow> rat \<Rightarrow> nat
     \<Rightarrow> UtilizationResult list" where
  "groupResults_utilization getWeekStart entries [] capacityPerDay workingDays = []"
| "groupResults_utilization getWeekStart entries (primaryGroup # remainingGroups)
     capacityPerDay workingDays =
     sort_key (\<lambda>result. - total_hours (u_metrics result))
       (map (\<lambda>(key, groupData).
               (let capacityHours =
                      (if primaryGroup = ByUser then of_nat workingDays * capacityPerDay
                       else of_nat workingDays * capacityPerDay
                              * of_nat (uniqueUsers (group_entries groupData)))
                in UtilizationResult (groupingOf primaryGroup groupData)
                     (calculateMetrics_utilization (group_entries groupData) capacityHours
                        workingDays)
                     (if remainingGroups \<noteq> []
                      then Some (groupResults_utilization getWeekStart (group_entries groupData)
                                   remainingGroups capacityPerDay workingDays)
                      else None)))
          (groupEntries getWeekStart primaryGroup entries))"

text \<open>
  The upstream calls of \<open>calculate\<close>: the page endpoint of the time entries of the query
  (date range and filters fixed), the single-user call, and the page endpoint of the
  active users.  Each may throw.
\<close>

record 'u UtilizationApi =
  timeEntriesEndpoint :: "nat \<Rightarrow> nat \<Rightarrow> error + TimeEntry PaginatedResponse"
  getUser :: "int \<Rightarrow> error + 'u"
  usersEndpoint :: "nat \<Rightarrow> nat \<Rightarrow> error + 'u PaginatedResponse"

record UtilizationParams =
  date_from :: int
  date_to :: int
  for_user_id :: "int option"
  group_by :: "GroupBy list option"
  capacity_hours_per_day :: "rat option"
  exclude_weekends :: "bool option"

record UtilizationResponse =
  setting_capacity_hours_per_day :: rat
  setting_exclude_weekends :: bool
  totals :: UtilizationMetrics
  grouped_results :: "UtilizationResult list option"
  entries_analyzed :: nat
  users_included :: nat

text \<open>\<open>user_id\<close> is tested for truthiness: an absent id and the id 0 both take the else branch.\<close>

definition truthyId :: "int option \<Rightarrow> bool" where
  "truthyId i = (case i of None \<Rightarrow> False | Some n \<Rightarrow> n \<noteq> 0)"

definition fetchUsers :: "'u UtilizationApi \<Rightarrow> int option \<Rightarrow> error + 'u list" where
  "fetchUsers api userId =
     (if truthyId userId then
        (case getUser api (the userId) of Inl e \<Rightarrow> Inl e | Inr userResponse \<Rightarrow> Inr [userResponse])
      else
        (case autoPaginate (usersEndpoint api) \<lparr>maxPages = Some 5, perPage = None\<rparr> of
           Inl e \<Rightarrow> Inl e
         | Inr usersResult \<Rightarrow> Inr (items usersResult)))"

definition calculate ::
  "(string \<Rightarrow> string) \<Rightarrow> 'u UtilizationApi \<Rightarrow> UtilizationParams \<Rightarrow> error + UtilizationResponse" where
  "calculate getWeekStart api params =
     (let groupBy = (case group_by params of None \<Rightarrow> [] | Some g \<Rightarrow> g);
          capacityPerDay = (case capacity_hours_per_day params of None \<Rightarrow> 8 | Some c \<Rightarrow> c);
          excludeWeekends = (case exclude_weekends params of None \<Rightarrow> True | Some b \<Rightarrow> b)
      in case autoPaginate (timeEntriesEndpoint api) \<lparr>maxPages = Some 10, perPage = None\<rparr> of
           Inl e \<Rightarrow> Inl e
         | Inr entriesResult \<Rightarrow>
            (case fetchUsers api (for_user_id params) of
               Inl e \<Rightarrow> Inl e
             | Inr fetchedUsers \<Rightarrow>
                (let entries = items entriesResult;
                     workingDays =
                       calculateWorkingDays (date_from params) (date_to params) excludeWeekends;
                     activeUsersCount =
                       (if truthyId (for_user_id params) then 1 else uniqueUsers entries);
                     totalCapacity = of_nat workingDays * capacityPerDay * of_nat activeUsersCount
                 in Inr \<lparr>setting_capacity_hours_per_day = capacityPerDay,
                         setting_exclude_weekends = excludeWeekends,
                         totals = calculateMetrics_utilization entries totalCapacity workingDays,
                         grouped_results =
                           (if groupBy \<noteq> []
                            then Some (groupResults_utilization getWeekStart entries groupBy
                                         capacityPerDay workingDays)
                            else None),
                         entries_analyzed = length entries,
                         users_included = activeUsersCount\<rparr>)))"

section \<open>ResponseCache: class HarvestCache (harvest/types.ts)\<close>

subsection \<open>Cache keys\<close>





subsection \<open>The store\<close>

text \<open>
  The backing store is the \<open>LRUCache\<close> of the lru-cache package, modelled by its
  documented behaviour: the entries from most to least recently used, each with the time
  it was set; an entry older than the time to live is stale; \<open>get\<close> deletes a stale entry
  and answers nothing, and moves a live entry to the front; \<open>set\<close> puts the entry at the
  front and drops the least recently used entries beyond the capacity; \<open>keys\<close> lists the
  live keys.
\<close>

record 'a CachedResponse =
  data :: 'a
  timestamp :: int
  cacheKey :: string

record 'a LRUCache =
  lru_entries :: "(string \<times> 'a \<times> int) list"
  lru_max :: nat
  lru_ttl :: int

definition isStale :: "int \<Rightarrow> 'a LRUCache \<Rightarrow> int \<Rightarrow> bool" where
  "isStale now c start = (lru_ttl c > 0 \<and> now - start > lru_ttl c)"

definition lru_delete :: "string \<Rightarrow> 'a LRUCache \<Rightarrow> 'a LRUCache" where
  "lru_delete key c = c\<lparr>lru_entries := filter (\<lambda>(k, v, start). k \<noteq> key) (lru_entries c)\<rparr>"

definition lru_get :: "int \<Rightarrow> 'a LRUCache \<Rightarrow> string \<Rightarrow> 'a option \<times> 'a LRUCache" where
  "lru_get now c key =
     (case map_of (lru_entries c) key of
        None \<Rightarrow> (None, c)
      | Some (v, start) \<Rightarrow>
          if isStale now c start then (None, lru_delete key c)
          else (Some v, c\<lparr>lru_entries := (key, v, start)
                              # filter (\<lambda>(k, v, start). k \<noteq> key) (lru_entries c)\<rparr>))"

definition lru_has :: "int \<Rightarrow> 'a LRUCache \<Rightarrow> string \<Rightarrow> bool" where
  "lru_has now c key =
     (case map_of (lru_entries c) key of
        None \<Rightarrow> False
      | Some (v, start) \<Rightarrow> \<not> isStale now c start)"




subsection \<open>HarvestCache\<close>

record CacheConfig =
  maxSize :: nat
  ttlMs :: int

record CacheStats =
  hits :: nat
  misses :: nat
  size_stat :: nat

record 'a HarvestCache =
  store :: "'a CachedResponse LRUCache"
  cache_config :: CacheConfig
  stats :: CacheStats





definition cache_has :: "int \<Rightarrow> 'a HarvestCache \<Rightarrow> string \<Rightarrow> bool" where
  "cache_has now hc key = lru_has now (store hc) key"





definition clear :: "'a HarvestCache \<Rightarrow> 'a HarvestCache" where
  "clear hc = hc\<lparr>store := (store hc)\<lparr>lru_entries := []\<rparr>,
                 stats := (stats hc)\<lparr>size_stat := 0\<rparr>\<rparr>"



section \<open>ApiGateway: \<open>request\<close> (harvest/client.ts)\<close>

















section \<open>Example inputs\<close>

text \<open>A limiter configuration of two requests per second.\<close>

definition small_window_config :: RateLimitConfig where
  "small_window_config = \<lparr>maxRequests = 2, windowMs = 1000, warningThreshold = 8 / 10\<rparr>"

text \<open>
  The paginated source of the pagination test property: it serves a list of items in
  pages of the requested size and reports the totals and the next page as the upstream
  service does.
\<close>

definition fakeSource :: "'a list \<Rightarrow> nat \<Rightarrow> nat \<Rightarrow> error + 'a PaginatedResponse" where
  "fakeSource stored page per =
     (let pages = (length stored + per - 1) div per
      in Inr \<lparr>properties = [(''per_page'', OtherField),
                          (''items'', ArrayField (take per (drop ((page - 1) * per) stored))),
                          (''links'', OtherField)],
              total_pages = pages,
              total_entries = length stored,
              next_page = (if page < pages then Some (page + 1) else None)\<rparr>)"

text \<open>The same source with one page whose fetch throws an upstream error.\<close>

definition upstreamFailure :: error where
  "upstreamFailure = HarvestApiError ''Harvest API error: 500 Internal Server Error'' 500 None"

definition failingSource :: "'a list \<Rightarrow> nat \<Rightarrow> nat \<Rightarrow> nat \<Rightarrow> error + 'a PaginatedResponse" where
  "failingSource stored failAt page per =
     (if page = failAt then Inl upstreamFailure else fakeSource stored page per)"























section \<open>Properties of the RateLimiter\<close>

lemma math_min_Min: "xs \<noteq> [] \<Longrightarrow> math_min xs = Num (Min (set xs))"
  by (cases xs) (simp_all only: math_min.simps Min.set_eq_fold)

lemma requestTimestamps_recordRequests:
  "requestTimestamps (recordRequests stamps rl) = requestTimestamps rl @ stamps"
  unfolding recordRequests_def
  by (induction stamps arbitrary: rl) (simp_all add: recordRequest_def)

lemma config_recordRequests: "config (recordRequests stamps rl) = config rl"
  unfolding recordRequests_def
  by (induction stamps arbitrary: rl) (simp_all add: recordRequest_def)

lemma retryAfterMs_recordRequests: "retryAfterMs (recordRequests stamps rl) = retryAfterMs rl"
  unfolding recordRequests_def
  by (induction stamps arbitrary: rl) (simp_all add: recordRequest_def)


lemma acquirePermit_full_window:
  assumes pos: "0 < maxRequests (config rl)"
    and full: "maxRequests (config rl) \<le> int (length (filter (\<lambda>t. now - windowMs (config rl) < t) (requestTimestamps rl)))"
    and free: "retryAfterMs rl \<le> now"
  shows "fst (acquirePermit now rl)
           = Num (Min {t \<in> set (requestTimestamps rl). now - windowMs (config rl) < t} + windowMs (config rl) - now)
         \<and> 0 < Min {t \<in> set (requestTimestamps rl). now - windowMs (config rl) < t} + windowMs (config rl) - now"
proof -
  let ?live = "filter (\<lambda>t. now - windowMs (config rl) < t) (requestTimestamps rl)"
  have ne: "?live \<noteq> []" using pos full by auto
  have mm: "math_min ?live = Num (Min (set ?live))" using ne by (rule math_min_Min)
  have "Min (set ?live) \<in> set ?live" using ne by (metis List.finite_set Min_in set_empty)
  then have gt: "now - windowMs (config rl) < Min (set ?live)" by simp
  have seteq: "set ?live = {t \<in> set (requestTimestamps rl). now - windowMs (config rl) < t}" by auto
  show ?thesis
    using free full gt mm unfolding seteq[symmetric]
    by (simp add: acquirePermit_def cleanOldTimestamps_def Let_def)
qed

lemma acquirePermit_idle:
  assumes pos: "0 < maxRequests (config rl)" and thr: "0 < warningThreshold (config rl)"
    and old: "\<forall>t \<in> set (requestTimestamps rl). t + windowMs (config rl) \<le> later"
    and free: "retryAfterMs rl \<le> later"
  shows "fst (acquirePermit later rl) = Num 0"
proof -
  have "filter (\<lambda>t. later - windowMs (config rl) < t) (requestTimestamps rl) = []"
    using old by (auto simp: filter_empty_conv)
  moreover have "0 < of_int (maxRequests (config rl)) * warningThreshold (config rl)"
    using pos thr by simp
  ultimately show ?thesis
    using free pos by (simp add: acquirePermit_def cleanOldTimestamps_def Let_def)
qed


text \<open>
  Claim C4.  Take a limiter whose configuration allows at least one request and has a
  positive warning threshold, with no embargo active.  After \<open>maxRequests\<close> calls of
  \<open>recordRequest\<close> inside the last \<open>windowMs\<close>, \<open>acquirePermit\<close> returns the wait
  \<open>(oldestTimestamp + windowMs) - now\<close>, which is strictly positive, where the oldest
  timestamp is the least one still inside the window.  Once \<open>windowMs\<close> has elapsed with
  no further call, \<open>acquirePermit\<close> returns 0, whether or not the first permit request
  was made in between.
\<close>

theorem acquirePermit_sliding_window:
  assumes pos: "0 < maxRequests (config rl0)" and thr: "0 < warningThreshold (config rl0)"
    and full: "int (length stamps) = maxRequests (config rl0)"
    and recent: "\<forall>t \<in> set stamps. now - windowMs (config rl0) < t \<and> t \<le> now"
    and past: "\<forall>t \<in> set (requestTimestamps rl0). t \<le> now"
    and free: "retryAfterMs rl0 \<le> now"
    and elapsed: "now + windowMs (config rl0) \<le> later"
  shows "(let rl = recordRequests stamps rl0;
              oldestTimestamp = Min {t \<in> set (requestTimestamps rl). now - windowMs (config rl0) < t};
              waitMs = (oldestTimestamp + windowMs (config rl0)) - now
          in fst (acquirePermit now rl) = Num waitMs \<and> 0 < waitMs
             \<and> fst (acquirePermit later rl) = Num 0
             \<and> fst (acquirePermit later (snd (acquirePermit now rl))) = Num 0)"
proof -
  let ?rl = "recordRequests stamps rl0"
  have cfg: "config ?rl = config rl0" by (rule config_recordRequests)
  have ts: "requestTimestamps ?rl = requestTimestamps rl0 @ stamps"
    by (rule requestTimestamps_recordRequests)
  have ra: "retryAfterMs ?rl = retryAfterMs rl0" by (rule retryAfterMs_recordRequests)
  have keep: "filter (\<lambda>t. now - windowMs (config rl0) < t) stamps = stamps"
    using recent by (simp add: filter_id_conv)
  have "maxRequests (config ?rl)
          \<le> int (length (filter (\<lambda>t. now - windowMs (config ?rl) < t) (requestTimestamps ?rl)))"
    using full by (simp add: cfg ts keep)
  then have first: "fst (acquirePermit now ?rl)
           = Num (Min {t \<in> set (requestTimestamps ?rl). now - windowMs (config ?rl) < t} + windowMs (config ?rl) - now)
         \<and> 0 < Min {t \<in> set (requestTimestamps ?rl). now - windowMs (config ?rl) < t} + windowMs (config ?rl) - now"
    using pos free by (intro acquirePermit_full_window) (simp_all add: cfg ra)
  have old: "\<forall>t \<in> set (requestTimestamps ?rl). t + windowMs (config ?rl) \<le> later"
    using recent past elapsed by (auto simp: cfg ts)
  have "stamps \<noteq> []" using pos full by auto
  then obtain t where "t \<in> set stamps" by (cases stamps) auto
  then have "0 < windowMs (config rl0)" using recent by fastforce
  then have free': "retryAfterMs ?rl \<le> later"
    using free elapsed by (simp add: ra)
  have second: "fst (acquirePermit later ?rl) = Num 0"
    using pos thr old free' by (intro acquirePermit_idle) (simp_all add: cfg)
  let ?rl' = "snd (acquirePermit now ?rl)"
  have rl': "?rl' = cleanOldTimestamps now ?rl"
    by (simp add: acquirePermit_def Let_def split: js_number.split)
  have third: "fst (acquirePermit later ?rl') = Num 0"
    using pos thr old free' unfolding rl'
    by (intro acquirePermit_idle) (auto simp: cfg cleanOldTimestamps_def Let_def)
  show ?thesis
    using first second third by (simp add: Let_def cfg)
qed

theorem acquirePermit_sliding_window_witness:
  "0 < maxRequests (config (newRateLimiter small_window_config))
   \<and> 0 < warningThreshold (config (newRateLimiter small_window_config))
   \<and> int (length [100, 200 :: int]) = maxRequests (config (newRateLimiter small_window_config))
   \<and> 300 - windowMs (config (newRateLimiter small_window_config)) < 100
   \<and> 300 - windowMs (config (newRateLimiter small_window_config)) < 200
   \<and> 300 + windowMs (config (newRateLimiter small_window_config)) \<le> 1300
   \<and> retryAfterMs (newRateLimiter small_window_config) \<le> 300
   \<and> fst (acquirePermit 300 (recordRequests [100, 200] (newRateLimiter small_window_config))) = Num 800
   \<and> fst (acquirePermit 1300 (recordRequests [100, 200] (newRateLimiter small_window_config))) = Num 0
   \<and> fst (acquirePermit 1300 (snd (acquirePermit 300 (recordRequests [100, 200] (newRateLimiter small_window_config))))) = Num 0"
  using acquirePermit_sliding_window [of "newRateLimiter small_window_config" "[100, 200]" 300 1300]
  by (simp add: newRateLimiter_def small_window_config_def Let_def recordRequests_def recordRequest_def
        acquirePermit_def cleanOldTimestamps_def)

section \<open>Properties of auto-pagination\<close>

declare paginateLoop.simps [simp del]

lemma paginateLoop_error:
  assumes "page \<le> k" "k \<le> maxP" "page \<le> tp"
    and "\<forall>p. page \<le> p \<and> p < k \<longrightarrow> continues endpoint perP p"
    and "endpoint k perP = Inl e"
  shows "paginateLoop endpoint maxP perP page tp te acc = Inl e"
  using assms
proof (induction "k - page" arbitrary: page tp te acc)
  case 0
  then have "page = k" by simp
  with 0 show ?case by (subst paginateLoop.simps) simp
next
  case (Suc d)
  then have lt: "page < k" by simp
  with Suc.prems have c: "continues endpoint perP page" by simp
  then obtain r where r: "endpoint page perP = Inr r" "next_page r \<noteq> None" "page + 1 \<le> total_pages r"
    by (auto simp: continues_def split: sum.splits)
  have "paginateLoop endpoint maxP perP (page + 1) (total_pages r) (total_entries r) (acc @ responseItems r) = Inl e"
    using Suc.hyps(2) Suc.prems lt r by (intro Suc.hyps(1)) auto
  then show ?case
    using Suc.prems lt r by (subst paginateLoop.simps) auto
qed

lemma paginateLoop_Inl:
  assumes "paginateLoop endpoint maxP perP page tp te acc = Inl e"
  shows "\<exists>k. page \<le> k \<and> k \<le> maxP \<and> (\<forall>p. page \<le> p \<and> p < k \<longrightarrow> continues endpoint perP p)
             \<and> endpoint k perP = Inl e"
  using assms
proof (induction endpoint maxP perP page tp te acc rule: paginateLoop.induct)
  case (1 endpoint maxP perP page totalPages totalEntries allItems)
  from "1.prems" have go: "page \<le> maxP" "page \<le> totalPages"
    by (subst (asm) paginateLoop.simps, auto split: if_splits)+
  show ?case
  proof (cases "endpoint page perP")
    case (Inl e')
    with "1.prems" go have "e' = e" by (subst (asm) paginateLoop.simps) simp
    with Inl go show ?thesis by (intro exI[of _ page]) auto
  next
    case (Inr r)
    with "1.prems" go have nn: "next_page r \<noteq> None"
      by (subst (asm) paginateLoop.simps) (auto split: if_splits)
    with "1.prems" go Inr have rec: "paginateLoop endpoint maxP perP (page + 1) (total_pages r)
            (total_entries r) (allItems @ responseItems r) = Inl e"
      by (subst (asm) paginateLoop.simps) (auto split: if_splits)
    from rec have tp: "page + 1 \<le> total_pages r"
      by (subst (asm) paginateLoop.simps) (auto split: if_splits)
    from "1.IH"[OF _ Inr nn rec] go obtain k where k: "page + 1 \<le> k" "k \<le> maxP"
        "\<forall>p. page + 1 \<le> p \<and> p < k \<longrightarrow> continues endpoint perP p" "endpoint k perP = Inl e"
      by auto
    have "continues endpoint perP page" using Inr nn tp by (simp add: continues_def)
    then have "\<forall>p. page \<le> p \<and> p < k \<longrightarrow> continues endpoint perP p"
      using k(3) by (metis Suc_eq_plus1 Suc_leI le_neq_implies_less)
    with k show ?thesis by (intro exI[of _ k]) auto
  qed
qed

lemma paginateLoop_Inr:
  assumes "paginateLoop endpoint maxP perP page tp te acc = Inr result"
  shows "\<exists>n. (\<forall>p. page \<le> p \<and> p < page + n \<longrightarrow> fetched endpoint perP p)
            \<and> items result = acc @ concat (map (pageItems endpoint perP) [page..<page + n])"
  using assms
proof (induction endpoint maxP perP page tp te acc rule: paginateLoop.induct)
  case (1 endpoint maxP perP page totalPages totalEntries allItems)
  show ?case
  proof (cases "page \<le> maxP \<and> page \<le> totalPages")
    case False
    with "1.prems" have "items result = allItems"
      by (subst (asm) paginateLoop.simps) auto
    then show ?thesis by (intro exI[of _ 0]) auto
  next
    case go: True
    show ?thesis
    proof (cases "endpoint page perP")
      case (Inl e')
      with "1.prems" go show ?thesis by (subst (asm) paginateLoop.simps) simp
    next
      case (Inr r)
      have f: "fetched endpoint perP page" and pi: "pageItems endpoint perP page = responseItems r"
        using Inr by (simp_all add: fetched_def pageItems_def)
      show ?thesis
      proof (cases "next_page r = None")
        case True
        with "1.prems" go Inr have "items result = allItems @ responseItems r"
          by (subst (asm) paginateLoop.simps) auto
        with f pi show ?thesis by (intro exI[of _ 1]) (auto simp: le_less_Suc_eq)
      next
        case nn: False
        with "1.prems" go Inr have rec: "paginateLoop endpoint maxP perP (page + 1) (total_pages r)
            (total_entries r) (allItems @ responseItems r) = Inr result"
          by (subst (asm) paginateLoop.simps) (auto split: if_splits)
        from "1.IH"[OF go Inr nn rec] obtain n where n:
          "\<forall>p. page + 1 \<le> p \<and> p < page + 1 + n \<longrightarrow> fetched endpoint perP p"
          "items result = (allItems @ responseItems r) @ concat (map (pageItems endpoint perP) [page + 1..<page + 1 + n])"
          by auto
        have a: "\<forall>p. page \<le> p \<and> p < page + Suc n \<longrightarrow> fetched endpoint perP p"
          using n(1) f by (metis Suc_eq_plus1 Suc_leI add_Suc_right add_Suc le_neq_implies_less)
        have "[page..<page + Suc n] = page # [page + 1..<page + 1 + n]"
          by (simp add: upt_rec)
        then have b: "items result = allItems @ concat (map (pageItems endpoint perP) [page..<page + Suc n])"
          using n(2) pi by simp
        from a b show ?thesis by (intro exI[of _ "Suc n"]) blast
      qed
    qed
  qed
qed


text \<open>
  Claim C9.  A call of \<open>autoPaginate\<close> fails with error \<open>e\<close> exactly when its run reaches
  a page whose fetch throws \<open>e\<close>: every earlier page returned a response that sent the
  loop on, and the page lies within \<open>maxPages\<close>.  So a failing fetch on any page of the
  run fails the whole call with that error, and the error value carries no items.  When
  the call does return a result, every page of its run was fetched successfully and the
  items are the concatenation of those whole pages: no result is cut short by a failure.
  A calculator that reads its entries through \<open>autoPaginate\<close> fails with the same error:
  the utilization calculation returns no response when the pagination of its time
  entries fails.
\<close>

theorem autoPaginate_all_or_nothing:
  "(autoPaginate endpoint options = Inl e \<longleftrightarrow>
      (\<exists>k. 1 \<le> k \<and> k \<le> maxPagesOf options
           \<and> (\<forall>p. 1 \<le> p \<and> p < k \<longrightarrow> continues endpoint (perPageOf options) p)
           \<and> endpoint k (perPageOf options) = Inl e))
   \<and> (\<forall>result. autoPaginate endpoint options = Inr result \<longrightarrow>
         (\<exists>n. (\<forall>p. 1 \<le> p \<and> p < 1 + n \<longrightarrow> fetched endpoint (perPageOf options) p)
              \<and> items result = concat (map (pageItems endpoint (perPageOf options)) [1..<1 + n])))
   \<and> (autoPaginate (timeEntriesEndpoint api) \<lparr>maxPages = Some 10, perPage = None\<rparr> = Inl e
        \<longrightarrow> calculate getWeekStart api params = Inl e)"
proof -
  have unf: "autoPaginate endpoint options
      = paginateLoop endpoint (maxPagesOf options) (perPageOf options) 1 1 0 []"
    by (simp add: autoPaginate_def maxPagesOf_def perPageOf_def)
  have a: "autoPaginate endpoint options = Inl e" if "\<exists>k. 1 \<le> k \<and> k \<le> maxPagesOf options
           \<and> (\<forall>p. 1 \<le> p \<and> p < k \<longrightarrow> continues endpoint (perPageOf options) p)
           \<and> endpoint k (perPageOf options) = Inl e"
  proof -
    from that obtain k where k: "1 \<le> k" "k \<le> maxPagesOf options"
       "\<forall>p. 1 \<le> p \<and> p < k \<longrightarrow> continues endpoint (perPageOf options) p"
       "endpoint k (perPageOf options) = Inl e" by blast
    show ?thesis unfolding unf
      by (rule paginateLoop_error[OF k(1) k(2) _ k(3) k(4)]) simp
  qed
  have b: "\<exists>k. 1 \<le> k \<and> k \<le> maxPagesOf options
           \<and> (\<forall>p. 1 \<le> p \<and> p < k \<longrightarrow> continues endpoint (perPageOf options) p)
           \<and> endpoint k (perPageOf options) = Inl e" if "autoPaginate endpoint options = Inl e"
    using that unfolding unf by (rule paginateLoop_Inl)
  have c: "\<exists>n. (\<forall>p. 1 \<le> p \<and> p < 1 + n \<longrightarrow> fetched endpoint (perPageOf options) p)
              \<and> items result = concat (map (pageItems endpoint (perPageOf options)) [1..<1 + n])"
    if "autoPaginate endpoint options = Inr result" for result
    using paginateLoop_Inr[OF that[unfolded unf]] by simp
  have d: "calculate getWeekStart api params = Inl e"
    if "autoPaginate (timeEntriesEndpoint api) \<lparr>maxPages = Some 10, perPage = None\<rparr> = Inl e"
    using that by (simp add: calculate_def Let_def)
  from a b c d show ?thesis by blast
qed

theorem autoPaginate_all_or_nothing_witness:
  "continues (failingSource (replicate 250 (0::nat)) 2) (perPageOf defaultOptions) 1
   \<and> failingSource (replicate 250 (0::nat)) 2 2 (perPageOf defaultOptions) = Inl upstreamFailure
   \<and> autoPaginate (failingSource (replicate 250 (0::nat)) 2) defaultOptions = Inl upstreamFailure"
proof -
  let ?src = "failingSource (replicate 250 (0::nat)) 2"
  have c: "continues ?src (perPageOf defaultOptions) 1"
    by (simp add: continues_def failingSource_def fakeSource_def perPageOf_def defaultOptions_def Let_def)
  have f: "?src 2 (perPageOf defaultOptions) = Inl upstreamFailure"
    by (simp add: failingSource_def)
  have "\<exists>k. 1 \<le> k \<and> k \<le> maxPagesOf defaultOptions
           \<and> (\<forall>p. 1 \<le> p \<and> p < k \<longrightarrow> continues ?src (perPageOf defaultOptions) p)
           \<and> ?src k (perPageOf defaultOptions) = Inl upstreamFailure"
  proof (intro exI[of _ 2] conjI allI impI)
    show "2 \<le> maxPagesOf defaultOptions" by (simp add: maxPagesOf_def defaultOptions_def)
    show "continues ?src (perPageOf defaultOptions) p" if "1 \<le> p \<and> p < 2" for p
    proof -
      from that have "p = 1" by simp
      with c show ?thesis by simp
    qed
  qed (use f in simp_all)
  then have "autoPaginate ?src defaultOptions = Inl upstreamFailure"
    using autoPaginate_all_or_nothing[of ?src defaultOptions upstreamFailure] by blast
  with c f show ?thesis by blast
qed

lemma paginateLoop_step:
  assumes "endpoint page perP = Inr r" "page \<le> maxP" "page \<le> tp" "next_page r \<noteq> None"
    and "page' = page + 1"
  shows "paginateLoop endpoint maxP perP page tp te acc
           = paginateLoop endpoint maxP perP page' (total_pages r) (total_entries r)
               (acc @ responseItems r)"
  using assms by (subst paginateLoop.simps) auto

lemma paginateLoop_last:
  assumes "endpoint page perP = Inr r" "page \<le> maxP" "page \<le> tp" "next_page r = None"
  shows "paginateLoop endpoint maxP perP page tp te acc
           = Inr \<lparr>items = acc @ responseItems r, result_total_entries = total_entries r,
                  pages_fetched = page\<rparr>"
  using assms by (subst paginateLoop.simps) simp

lemma paginateLoop_stop:
  assumes "maxP < page \<or> tp < page"
  shows "paginateLoop endpoint maxP perP page tp te acc
           = Inr \<lparr>items = acc, result_total_entries = te, pages_fetched = page\<rparr>"
  using assms by (subst paginateLoop.simps) auto

text \<open>
  Claim C1.  Take any source whose three pages report \<open>total_entries = 250\<close> and
  \<open>total_pages = 3\<close>, hold 100, 100 and 50 items and name the next pages 2, 3 and none.
  With the default options \<open>autoPaginate\<close> returns the 250 items of the three pages and
  \<open>pages_fetched = 3\<close>.  With \<open>maxPages = 2\<close> it returns the 200 items of the first two
  pages, and the page counter it reports is 3, not 2: the loop has already stepped to
  page 3 when the page cap ends it, and the result reports the loop variable.
\<close>

theorem autoPaginate_three_page_source:
  assumes p1: "endpoint 1 100 = Inr r1" and p2: "endpoint 2 100 = Inr r2"
    and p3: "endpoint 3 100 = Inr r3"
    and pages: "total_pages r1 = 3" "total_pages r2 = 3" "total_pages r3 = 3"
    and entries: "total_entries r1 = 250" "total_entries r2 = 250" "total_entries r3 = 250"
    and nexts: "next_page r1 = Some 2" "next_page r2 = Some 3" "next_page r3 = None"
    and sizes: "length (responseItems r1) = 100" "length (responseItems r2) = 100"
      "length (responseItems r3) = 50"
  shows "autoPaginate endpoint defaultOptions
           = Inr \<lparr>items = responseItems r1 @ responseItems r2 @ responseItems r3,
                  result_total_entries = 250, pages_fetched = 3\<rparr>
         \<and> length (responseItems r1 @ responseItems r2 @ responseItems r3) = 250
         \<and> autoPaginate endpoint \<lparr>maxPages = Some 2, perPage = None\<rparr>
           = Inr \<lparr>items = responseItems r1 @ responseItems r2,
                  result_total_entries = 250, pages_fetched = 3\<rparr>
         \<and> length (responseItems r1 @ responseItems r2) = 200"
proof -
  have nn: "next_page r1 \<noteq> None" "next_page r2 \<noteq> None" using nexts by simp_all
  have run: "paginateLoop endpoint maxP 100 1 1 0 []
          = paginateLoop endpoint maxP 100 3 3 250 (responseItems r1 @ responseItems r2)"
    if "2 \<le> maxP" for maxP
  proof -
    have "paginateLoop endpoint maxP 100 1 1 0 []
            = paginateLoop endpoint maxP 100 2 (total_pages r1) (total_entries r1)
                ([] @ responseItems r1)"
      by (rule paginateLoop_step[where r = r1]) (use that p1 nn in simp_all)
    also have "\<dots> = paginateLoop endpoint maxP 100 2 3 250 (responseItems r1)"
      by (simp only: pages entries append_Nil)
    also have "\<dots> = paginateLoop endpoint maxP 100 3 (total_pages r2) (total_entries r2)
                (responseItems r1 @ responseItems r2)"
      by (rule paginateLoop_step[where r = r2]) (use that p2 nn in simp_all)
    also have "\<dots> = paginateLoop endpoint maxP 100 3 3 250 (responseItems r1 @ responseItems r2)"
      by (simp only: pages entries)
    finally show ?thesis .
  qed
  have "paginateLoop endpoint 10 100 3 3 250 (responseItems r1 @ responseItems r2)
          = Inr \<lparr>items = (responseItems r1 @ responseItems r2) @ responseItems r3,
                  result_total_entries = total_entries r3, pages_fetched = 3\<rparr>"
    by (rule paginateLoop_last[where r = r3]) (use p3 nexts in simp_all)
  then have a: "autoPaginate endpoint defaultOptions
           = Inr \<lparr>items = responseItems r1 @ responseItems r2 @ responseItems r3,
                  result_total_entries = 250, pages_fetched = 3\<rparr>"
    using run[of 10] by (simp add: autoPaginate_def defaultOptions_def entries)
  have "paginateLoop endpoint 2 100 3 3 250 (responseItems r1 @ responseItems r2)
          = Inr \<lparr>items = responseItems r1 @ responseItems r2,
                  result_total_entries = 250, pages_fetched = 3\<rparr>"
    by (rule paginateLoop_stop) simp
  then have b: "autoPaginate endpoint \<lparr>maxPages = Some 2, perPage = None\<rparr>
           = Inr \<lparr>items = responseItems r1 @ responseItems r2,
                  result_total_entries = 250, pages_fetched = 3\<rparr>"
    using run[of 2] by (simp add: autoPaginate_def)
  from a b sizes show ?thesis by simp
qed


lemma fakeSource_page:
  "fakeSource [0..<250] p 100
     = Inr \<lparr>properties = [(''per_page'', OtherField),
                          (''items'', ArrayField (take 100 (drop ((p - 1) * 100) [0..<250]))),
                          (''links'', OtherField)],
            total_pages = 3, total_entries = 250,
            next_page = (if p < 3 then Some (p + 1) else None)\<rparr>"
  by (simp add: fakeSource_def Let_def)

lemma responseItems_items:
  "responseItems \<lparr>properties = [(''per_page'', OtherField), (''items'', ArrayField xs),
       (''links'', OtherField)], total_pages = tp, total_entries = te, next_page = np\<rparr> = xs"
  by (simp add: responseItems_def itemsKey_def)

theorem autoPaginate_three_page_source_witness:
  "autoPaginate (fakeSource [0..<250]) defaultOptions
     = Inr \<lparr>items = [0..<100] @ [100..<200] @ [200..<250],
            result_total_entries = 250, pages_fetched = 3\<rparr>
   \<and> autoPaginate (fakeSource [0..<250]) \<lparr>maxPages = Some 2, perPage = None\<rparr>
     = Inr \<lparr>items = [0..<100] @ [100..<200],
            result_total_entries = 250, pages_fetched = 3\<rparr>"
proof -
  let ?r = "\<lambda>p xs. \<lparr>properties = [(''per_page'', OtherField), (''items'', ArrayField xs),
       (''links'', OtherField)], total_pages = 3, total_entries = 250,
       next_page = (if p < (3::nat) then Some (p + 1) else None)\<rparr>"
  have p1: "fakeSource [0..<250] 1 100 = Inr (?r 1 [0..<100])"
    by (simp add: fakeSource_page)
  have p2: "fakeSource [0..<250] 2 100 = Inr (?r 2 [100..<200])"
    by (simp add: fakeSource_page)
  have p3: "fakeSource [0..<250] 3 100 = Inr (?r 3 [200..<250])"
    by (simp add: fakeSource_page)
  show ?thesis
    using autoPaginate_three_page_source[of "fakeSource [0..<250]" "?r 1 [0..<100]"
        "?r 2 [100..<200]" "?r 3 [200..<250]"] p1 p2 p3
    by (simp add: responseItems_items)
qed

section \<open>Properties of the EntityResolver\<close>






section \<open>Properties of the profitability calculation\<close>







section \<open>Properties of the utilization calculation\<close>

declare workingDaysLoop.simps [simp del]








section \<open>Properties of the grouping primitive\<close>

subsection \<open>The bucketing loop\<close>





















section \<open>Properties of the cache key\<close>














section \<open>Properties of the cache under requests\<close>










lemma lru_get_max: "lru_max (snd (lru_get now c key)) = lru_max c"
  by (auto simp: lru_get_def lru_delete_def split: option.splits)







end
